theory Spec2Isabelle
  imports Main
begin

section \<open>Python values, state dictionaries and errors\<close>

text \<open>
  Both workflows thread a Python dictionary through their node functions. A dictionary is
  a map from keys to values; a value is one of the Python objects the two state schemas
  declare. An exception raised by the source is a value of type \<open>error\<close>.
  Text is a list of 8-bit characters, read as the code points below 256.
\<close>

datatype val = Str string | Bool bool | IntV int | Strs "string list" | NoneV

datatype 'k error =
    KeyError 'k
  | TypeError
  | AttributeError
  | UnknownNode string
  | UnmappedLabel val
  | MissingEdge string

type_synonym 'k state = "'k \<rightharpoonup> val"

text \<open>Truth value of an object, as \<^verbatim>\<open>if x\<close> and \<^verbatim>\<open>not x\<close> take it.\<close>

fun truthy :: "val \<Rightarrow> bool" where
  "truthy (Str s) = (s \<noteq> [])"
| "truthy (Bool b) = b"
| "truthy (IntV i) = (i \<noteq> 0)"
| "truthy (Strs xs) = (xs \<noteq> [])"
| "truthy NoneV = False"

text \<open>\<^verbatim>\<open>state.get(k)\<close>: the value, or \<^verbatim>\<open>None\<close> for a missing key.\<close>

definition get_or_none :: "'k state \<Rightarrow> 'k \<Rightarrow> val" where
  "get_or_none state k = (case state k of None \<Rightarrow> NoneV | Some v \<Rightarrow> v)"

text \<open>
  A value interpolated into an f-string. A \<^verbatim>\<open>str\<close> is inserted as it is; for any other
  object Python's built-in \<^verbatim>\<open>str()\<close> is called, which is taken as the parameter
  \<open>py_str\<close>.
\<close>

definition fstr :: "(val \<Rightarrow> string) \<Rightarrow> val \<Rightarrow> string" where
  "fstr py_str v = (case v of Str s \<Rightarrow> s | _ \<Rightarrow> py_str v)"

subsection \<open>String operations\<close>

text \<open>\<^verbatim>\<open>str.lower()\<close> on the code points below 256: A-Z and the accented capitals.\<close>

definition lower_char :: "char \<Rightarrow> char" where
  "lower_char c =
     (let n = (of_char c :: nat)
      in if (65 \<le> n \<and> n \<le> 90) \<or> (192 \<le> n \<and> n \<le> 222 \<and> n \<noteq> 215)
         then char_of (n + 32) else c)"

definition lower :: "string \<Rightarrow> string" where
  "lower s = map lower_char s"

fun startswith :: "string \<Rightarrow> string \<Rightarrow> bool" where
  "startswith s [] = True"
| "startswith [] (c # w) = False"
| "startswith (d # s) (c # w) = (d = c \<and> startswith s w)"

text \<open>\<^verbatim>\<open>word in msg\<close> on two strings: \<open>word\<close> occurs in \<open>msg\<close> as a contiguous piece.\<close>

fun is_in :: "string \<Rightarrow> string \<Rightarrow> bool" where
  "is_in word [] = (word = [])"
| "is_in word (d # s) = (startswith (d # s) word \<or> is_in word s)"

section \<open>The support-triage workflow (realtime\_support\_graph.py)\<close>

datatype skey =
    k_user_id | k_message | k_sentiment | k_category | k_priority
  | k_context | k_response | k_escalate | k_requires_human | k_ticket_id

type_synonym SupportState = "skey state"

text \<open>
  What the node functions take from outside the state: the wall clock, already formatted
  by \<^verbatim>\<open>datetime.now().strftime('%Y%m%d%H%M%S')\<close>, and Python's \<^verbatim>\<open>str()\<close>.
\<close>

record env =
  now_stamp :: string
  py_str :: "val \<Rightarrow> string"

subsection \<open>Node functions\<close>

definition analyze_sentiment :: "SupportState \<Rightarrow> skey error + SupportState" where
  "analyze_sentiment state =
     (case state k_message of
        None \<Rightarrow> Inl (KeyError k_message)
      | Some (Str m) \<Rightarrow>
          (let msg = lower m;
               urgent_keywords = [''urgent'', ''asap'', ''immediately'', ''emergency'',
                                  ''critical'', ''not working''];
               negative_keywords = [''angry'', ''frustrated'', ''disappointed'',
                                    ''terrible'', ''worst''];
               sentiment =
                 (if list_ex (\<lambda>word. is_in word msg) urgent_keywords then ''urgent''
                  else if list_ex (\<lambda>word. is_in word msg) negative_keywords then ''negative''
                  else if list_ex (\<lambda>word. is_in word msg)
                            [''thank'', ''great'', ''love'', ''awesome''] then ''positive''
                  else ''neutral'')
           in Inr [k_sentiment \<mapsto> Str sentiment])
      | Some _ \<Rightarrow> Inl AttributeError)"

definition categorize_issue :: "SupportState \<Rightarrow> skey error + SupportState" where
  "categorize_issue state =
     (case state k_message of
        None \<Rightarrow> Inl (KeyError k_message)
      | Some (Str m) \<Rightarrow>
          (let msg = lower m;
               category =
                 (if list_ex (\<lambda>word. is_in word msg)
                       [''bill'', ''charge'', ''payment'', ''refund'', ''invoice''] then ''billing''
                  else if list_ex (\<lambda>word. is_in word msg)
                            [''bug'', ''error'', ''crash'', ''not working'', ''broken'']
                       then ''technical''
                  else if list_ex (\<lambda>word. is_in word msg)
                            [''login'', ''password'', ''access'', ''account'', ''reset'']
                       then ''account''
                  else ''product'')
           in Inr [k_category \<mapsto> Str category])
      | Some _ \<Rightarrow> Inl AttributeError)"

definition assign_priority :: "SupportState \<Rightarrow> skey error + SupportState" where
  "assign_priority state =
     (case state k_sentiment of
        None \<Rightarrow> Inl (KeyError k_sentiment)
      | Some sentiment \<Rightarrow>
     (case state k_category of
        None \<Rightarrow> Inl (KeyError k_category)
      | Some category \<Rightarrow>
          (let priority =
                 (if sentiment = Str ''urgent''
                     \<or> (category = Str ''billing'' \<and> sentiment = Str ''negative'')
                  then ''critical''
                  else if sentiment = Str ''negative'' \<or> category = Str ''technical''
                  then ''high''
                  else if category \<in> set [Str ''technical'', Str ''account'']
                          \<and> sentiment = Str ''neutral''
                  then ''medium''
                  else ''low'')
           in Inr [k_priority \<mapsto> Str priority])))"

definition check_knowledge_base :: "env \<Rightarrow> SupportState \<Rightarrow> skey error + SupportState" where
  "check_knowledge_base e state =
     (case state k_category of
        None \<Rightarrow> Inl (KeyError k_category)
      | Some category \<Rightarrow>
     (case state k_priority of
        None \<Rightarrow> Inl (KeyError k_priority)
      | Some priority \<Rightarrow>
          (let can_auto_resolve =
                 (priority \<in> set [Str ''low'', Str ''medium'']
                  \<and> category \<in> set [Str ''account'', Str ''product''])
           in if can_auto_resolve
              then Inr [k_response \<mapsto>
                          Str (''Auto-resolved '' @ fstr (py_str e) category
                               @ '' issue from knowledge base''),
                        k_requires_human \<mapsto> Bool False]
              else Inr [k_requires_human \<mapsto> Bool True])))"

definition generate_ai_response :: "env \<Rightarrow> SupportState \<Rightarrow> skey error + SupportState" where
  "generate_ai_response e state =
     (case state k_category of
        None \<Rightarrow> Inl (KeyError k_category)
      | Some category \<Rightarrow>
     (case state k_priority of
        None \<Rightarrow> Inl (KeyError k_priority)
      | Some priority \<Rightarrow>
          Inr [k_response \<mapsto>
                 Str (''AI-generated response for '' @ fstr (py_str e) category
                      @ '' issue (Priority: '' @ fstr (py_str e) priority @ '')''),
               k_escalate \<mapsto> Bool (priority = Str ''critical'')]))"

definition escalate_to_human :: "env \<Rightarrow> SupportState \<Rightarrow> skey error + SupportState" where
  "escalate_to_human e state =
     (let ticket_id = ''TKT-'' @ now_stamp e
      in Inr [k_response \<mapsto> Str (''Escalated to human agent - Ticket: '' @ ticket_id),
              k_ticket_id \<mapsto> Str ticket_id,
              k_escalate \<mapsto> Bool True])"

definition send_automated_response :: "env \<Rightarrow> SupportState \<Rightarrow> skey error + SupportState" where
  "send_automated_response e state =
     (case state k_category of
        None \<Rightarrow> Inl (KeyError k_category)
      | Some category \<Rightarrow>
          Inr [k_response \<mapsto>
                 Str (''Automated response for '' @ fstr (py_str e) category @ '' query''),
               k_escalate \<mapsto> Bool False])"

subsection \<open>Routing functions\<close>

text \<open>
  A routing function returns its label together with the dictionary it was given, since
  the routing function of the other workflow writes to it.
\<close>

definition should_auto_resolve :: "SupportState \<Rightarrow> skey error + val \<times> SupportState" where
  "should_auto_resolve state =
     (if \<not> truthy (get_or_none state k_requires_human) then Inr (Str ''automated'', state)
      else case state k_priority of
             None \<Rightarrow> Inl (KeyError k_priority)
           | Some priority \<Rightarrow>
               if priority \<in> set [Str ''critical'', Str ''high'']
               then Inr (Str ''escalate'', state)
               else Inr (Str ''ai_response'', state))"

definition should_escalate :: "SupportState \<Rightarrow> skey error + val \<times> SupportState" where
  "should_escalate state =
     (if truthy (get_or_none state k_escalate) then Inr (Str ''escalate'', state)
      else Inr (Str ''end'', state))"

section \<open>The graph executor\<close>

text \<open>
  Modelled from the spec: the graph executor (node registry, edge table and the run loop).
  Both source files import it from the \<^verbatim>\<open>langgraph\<close> package, which is not part of
  the repository. A workflow has an entry node, a registry of node functions and, per
  node, one outgoing rule: a fixed successor, or a routing function with a table from
  labels to successors. A node function returns the fields it updates; a node function
  may also consult the outside world \<open>'w\<close> (clock, external services).
\<close>

datatype 'k edge =
    Static string
  | Conditional "'k state \<Rightarrow> 'k error + val \<times> 'k state" "val \<rightharpoonup> string"

record ('w, 'k) workflow =
  entry :: string
  nodes :: "string \<rightharpoonup> ('w \<Rightarrow> 'k state \<Rightarrow> 'k error + 'w \<times> 'k state)"
  edges :: "string \<rightharpoonup> 'k edge"

text \<open>The terminal marker \<^verbatim>\<open>END\<close> of the package.\<close>

definition END :: string where
  "END = ''__end__''"

text \<open>
  Modelled from the spec: \<^verbatim>\<open>resolveNext(from, state)\<close>. An unconditional edge gives its
  target; otherwise the routing function is invoked and its label looked up, failing with
  \<open>UnmappedLabel\<close> when the label has no successor. The routing function works on the
  state dictionary itself, so what it writes to the dictionary stays written.
\<close>

definition resolveNext ::
  "('w, 'k) workflow \<Rightarrow> string \<Rightarrow> 'k state \<Rightarrow> 'k error + string \<times> 'k state" where
  "resolveNext W src state =
     (case edges W src of
        None \<Rightarrow> Inl (MissingEdge src)
      | Some (Static tgt) \<Rightarrow> Inr (tgt, state)
      | Some (Conditional routingFn labelToNode) \<Rightarrow>
          (case routingFn state of
             Inl e \<Rightarrow> Inl e
           | Inr (label, state') \<Rightarrow>
               (case labelToNode label of
                  None \<Rightarrow> Inl (UnmappedLabel label)
                | Some tgt \<Rightarrow> Inr (tgt, state'))))"

text \<open>Modelled from the spec: the merge of a node's update into the state; update fields win.\<close>

definition merge :: "'k state \<Rightarrow> 'k state \<Rightarrow> 'k state" where
  "merge state update = state ++ update"

text \<open>
  Modelled from the spec: \<^verbatim>\<open>run(workflow, initialState)\<close>. The walk has no bound of its
  own, so the model takes fuel: one unit per node visited, \<open>None\<close> when it runs out. A
  finished walk gives the visited nodes, each with the state it was entered with, and
  either the error that stopped it or the final world and state.
\<close>

type_synonym ('w, 'k) outcome = "(string \<times> 'k state) list \<times> ('k error + 'w \<times> 'k state)"

fun run :: "nat \<Rightarrow> ('w, 'k) workflow \<Rightarrow> string \<Rightarrow> 'w \<Rightarrow> 'k state \<Rightarrow> ('w, 'k) outcome option" where
  "run 0 W current w state = None"
| "run (Suc fuel) W current w state =
     (if current = END then Some ([], Inr (w, state))
      else case nodes W current of
             None \<Rightarrow> Some ([], Inl (UnknownNode current))
           | Some f \<Rightarrow>
               (case f w state of
                  Inl e \<Rightarrow> Some ([(current, state)], Inl e)
                | Inr (w', update) \<Rightarrow>
                    (case resolveNext W current (merge state update) of
                       Inl e \<Rightarrow> Some ([(current, state)], Inl e)
                     | Inr (nxt, state') \<Rightarrow>
                         (case run fuel W nxt w' state' of
                            None \<Rightarrow> None
                          | Some (trace, r) \<Rightarrow> Some ((current, state) # trace, r)))))"

definition invoke :: "nat \<Rightarrow> ('w, 'k) workflow \<Rightarrow> 'w \<Rightarrow> 'k state \<Rightarrow> ('w, 'k) outcome option" where
  "invoke fuel W w state = run fuel W (entry W) w state"

text \<open>The names of the visited nodes, and how often one of them was visited.\<close>

definition visits :: "('w, 'k) outcome \<Rightarrow> string list" where
  "visits out = map fst (fst out)"


text \<open>The state a finished walk returns; empty when the walk failed or ran out of fuel.\<close>

definition final_state :: "('w, 'k) outcome option \<Rightarrow> 'k state" where
  "final_state r = (case r of Some (trace, Inr (w, state)) \<Rightarrow> state | _ \<Rightarrow> Map.empty)"

text \<open>\<open>adjacent a b xs\<close>: somewhere in \<open>xs\<close>, \<open>b\<close> comes directly after \<open>a\<close>.\<close>

fun adjacent :: "'a \<Rightarrow> 'a \<Rightarrow> 'a list \<Rightarrow> bool" where
  "adjacent a b (x # y # ys) = ((x = a \<and> y = b) \<or> adjacent a b (y # ys))"
| "adjacent a b [x] = False"
| "adjacent a b [] = False"

subsection \<open>The compiled support-triage graph\<close>

text \<open>Node functions that do not touch the outside world leave it as it is.\<close>

definition node_of :: "('k state \<Rightarrow> 'k error + 'k state) \<Rightarrow> 'w \<Rightarrow> 'k state \<Rightarrow> 'k error + 'w \<times> 'k state" where
  "node_of f w state = (case f state of Inl e \<Rightarrow> Inl e | Inr update \<Rightarrow> Inr (w, update))"

definition env_node_of ::
  "('w \<Rightarrow> 'k state \<Rightarrow> 'k error + 'k state) \<Rightarrow> 'w \<Rightarrow> 'k state \<Rightarrow> 'k error + 'w \<times> 'k state" where
  "env_node_of f w state = (case f w state of Inl e \<Rightarrow> Inl e | Inr update \<Rightarrow> Inr (w, update))"

definition app :: "(env, skey) workflow" where
  "app = \<lparr>
     entry = ''analyze_sentiment'',
     nodes = [''analyze_sentiment'' \<mapsto> node_of analyze_sentiment,
              ''categorize'' \<mapsto> node_of categorize_issue,
              ''assign_priority'' \<mapsto> node_of assign_priority,
              ''check_kb'' \<mapsto> env_node_of check_knowledge_base,
              ''ai_response'' \<mapsto> env_node_of generate_ai_response,
              ''escalate'' \<mapsto> env_node_of escalate_to_human,
              ''automated'' \<mapsto> env_node_of send_automated_response],
     edges = [''analyze_sentiment'' \<mapsto> Static ''categorize'',
              ''categorize'' \<mapsto> Static ''assign_priority'',
              ''assign_priority'' \<mapsto> Static ''check_kb'',
              ''check_kb'' \<mapsto> Conditional should_auto_resolve
                                [Str ''automated'' \<mapsto> ''automated'',
                                 Str ''ai_response'' \<mapsto> ''ai_response'',
                                 Str ''escalate'' \<mapsto> ''escalate''],
              ''ai_response'' \<mapsto> Conditional should_escalate
                                   [Str ''escalate'' \<mapsto> ''escalate'',
                                    Str ''end'' \<mapsto> END],
              ''automated'' \<mapsto> Static END,
              ''escalate'' \<mapsto> Static END]
   \<rparr>"

text \<open>
  What is to hold of a state with which the \<open>ai_response\<close> node is entered: a human is
  required, the priority is low or medium, the node sets \<open>escalate\<close> to false and the
  routing function after it answers "end".
\<close>

definition enters_ai_response :: "env \<Rightarrow> SupportState \<Rightarrow> bool" where
  "enters_ai_response e state \<longleftrightarrow>
     state k_requires_human = Some (Bool True) \<and>
     state k_priority \<in> {Some (Str ''low''), Some (Str ''medium'')} \<and>
     (\<exists>update. generate_ai_response e state = Inr update \<and>
               update k_escalate = Some (Bool False) \<and>
               should_escalate (merge state update) = Inr (Str ''end'', merge state update))"

text \<open>
  The edge from \<open>ai_response\<close> to \<open>escalate\<close> is never taken in a trace: every entry
  into \<open>ai_response\<close> is as above, and \<open>escalate\<close> never directly follows it.
\<close>

definition dead_edge :: "env \<Rightarrow> (string \<times> SupportState) list \<Rightarrow> bool" where
  "dead_edge e trace \<longleftrightarrow>
     (\<forall>(name, s) \<in> set trace. name = ''ai_response'' \<longrightarrow> enters_ai_response e s) \<and>
     \<not> adjacent ''ai_response'' ''escalate'' (map fst trace)"

text \<open>The first two entries of \<^verbatim>\<open>test_cases\<close>.\<close>

definition test_case_1 :: SupportState where
  "test_case_1 =
     [k_user_id \<mapsto> Str ''U123'',
      k_message \<mapsto> Str ''URGENT: Cannot access my account, need help immediately!'',
      k_context \<mapsto> Strs []]"

definition test_case_2 :: SupportState where
  "test_case_2 =
     [k_user_id \<mapsto> Str ''U456'',
      k_message \<mapsto> Str ''How do I reset my password?'',
      k_context \<mapsto> Strs []]"

text \<open>A billing question in a neutral tone, which takes the \<open>ai_response\<close> path.\<close>

definition billing_question :: SupportState where
  "billing_question =
     [k_user_id \<mapsto> Str ''U321'',
      k_message \<mapsto> Str ''Where can I find my invoice?'',
      k_context \<mapsto> Strs []]"

text \<open>An environment for running the test cases: a fixed clock reading.\<close>

definition sample_env :: env where
  "sample_env = \<lparr>now_stamp = ''20250101093000'', py_str = (\<lambda>v. ''<object>'')\<rparr>"

section \<open>The retrieval-routing workflow (medium.py)\<close>








subsection \<open>Routing decision functions\<close>



subsection \<open>Workflow node functions\<close>








subsection \<open>The compiled retrieval graph\<close>






section \<open>The executor over nondeterministic nodes\<close>

text \<open>
  Modelled from the spec: the same walk, for node and routing functions that are not
  known to be functions. A node is a relation between the world and state it is given and
  what it returns; so is a routing function. \<open>walks W current w state out\<close> says that
  the walk from \<open>current\<close> can end with \<open>out\<close>.
\<close>

datatype 'k redge =
    RStatic string
  | RConditional "'k state \<Rightarrow> ('k error + val \<times> 'k state) \<Rightarrow> bool" "val \<rightharpoonup> string"

record ('w, 'k) rworkflow =
  rentry :: string
  rnodes :: "string \<rightharpoonup> ('w \<Rightarrow> 'k state \<Rightarrow> ('k error + 'w \<times> 'k state) \<Rightarrow> bool)"
  redges :: "string \<rightharpoonup> 'k redge"

inductive resolves ::
  "('w, 'k) rworkflow \<Rightarrow> string \<Rightarrow> 'k state \<Rightarrow> ('k error + string \<times> 'k state) \<Rightarrow> bool"
  for W :: "('w, 'k) rworkflow" where
  no_edge: "redges W src = None \<Longrightarrow> resolves W src state (Inl (MissingEdge src))"
| static: "redges W src = Some (RStatic tgt) \<Longrightarrow> resolves W src state (Inr (tgt, state))"
| routing_fails:
    "redges W src = Some (RConditional routingFn labelToNode) \<Longrightarrow> routingFn state (Inl e)
     \<Longrightarrow> resolves W src state (Inl e)"
| unmapped:
    "redges W src = Some (RConditional routingFn labelToNode)
     \<Longrightarrow> routingFn state (Inr (label, state')) \<Longrightarrow> labelToNode label = None
     \<Longrightarrow> resolves W src state (Inl (UnmappedLabel label))"
| mapped:
    "redges W src = Some (RConditional routingFn labelToNode)
     \<Longrightarrow> routingFn state (Inr (label, state')) \<Longrightarrow> labelToNode label = Some tgt
     \<Longrightarrow> resolves W src state (Inr (tgt, state'))"

inductive walks ::
  "('w, 'k) rworkflow \<Rightarrow> string \<Rightarrow> 'w \<Rightarrow> 'k state \<Rightarrow> ('w, 'k) outcome \<Rightarrow> bool"
  for W :: "('w, 'k) rworkflow" where
  terminal: "walks W END w state ([], Inr (w, state))"
| unknown:
    "current \<noteq> END \<Longrightarrow> rnodes W current = None
     \<Longrightarrow> walks W current w state ([], Inl (UnknownNode current))"
| node_fails:
    "current \<noteq> END \<Longrightarrow> rnodes W current = Some f \<Longrightarrow> f w state (Inl e)
     \<Longrightarrow> walks W current w state ([(current, state)], Inl e)"
| edge_fails:
    "current \<noteq> END \<Longrightarrow> rnodes W current = Some f \<Longrightarrow> f w state (Inr (w', update))
     \<Longrightarrow> resolves W current (merge state update) (Inl e)
     \<Longrightarrow> walks W current w state ([(current, state)], Inl e)"
| step:
    "current \<noteq> END \<Longrightarrow> rnodes W current = Some f \<Longrightarrow> f w state (Inr (w', update))
     \<Longrightarrow> resolves W current (merge state update) (Inr (nxt, state'))
     \<Longrightarrow> walks W nxt w' state' (trace, r)
     \<Longrightarrow> walks W current w state ((current, state) # trace, r)"

text \<open>Every node function and every routing function returns at most one result.\<close>

definition deterministic :: "('w, 'k) rworkflow \<Rightarrow> bool" where
  "deterministic W \<longleftrightarrow>
     (\<forall>name f w state r1 r2.
        rnodes W name = Some f \<longrightarrow> f w state r1 \<longrightarrow> f w state r2 \<longrightarrow> r1 = r2) \<and>
     (\<forall>name routingFn labelToNode state r1 r2.
        redges W name = Some (RConditional routingFn labelToNode) \<longrightarrow>
        routingFn state r1 \<longrightarrow> routingFn state r2 \<longrightarrow> r1 = r2)"

text \<open>A workflow of functions, seen as a workflow of relations.\<close>

definition redge_of :: "'k edge \<Rightarrow> 'k redge" where
  "redge_of ed =
     (case ed of
        Static tgt \<Rightarrow> RStatic tgt
      | Conditional routingFn labelToNode \<Rightarrow>
          RConditional (\<lambda>state r. routingFn state = r) labelToNode)"

definition rel_of :: "('w, 'k) workflow \<Rightarrow> ('w, 'k) rworkflow" where
  "rel_of W = \<lparr>
     rentry = entry W,
     rnodes = (\<lambda>name. map_option (\<lambda>f w state r. f w state = r) (nodes W name)),
     redges = (\<lambda>name. map_option redge_of (edges W name))
   \<rparr>"

section \<open>Properties of the triage decisions\<close>

text \<open>
  C3: for every state whose priority and category are populated,
  \<open>check_knowledge_base\<close> returns an update; the update sets \<open>requires_human\<close> to false
  and carries a knowledge-base response exactly when the priority is low or medium and
  the category is account or product, and sets \<open>requires_human\<close> to true (with no
  response) in every other case.
\<close>

theorem check_knowledge_base_eligibility:
  assumes "state k_priority = Some p" and "state k_category = Some c"
  shows "\<exists>u. check_knowledge_base e state = Inr u \<and>
           (u k_requires_human = Some (Bool False) \<longleftrightarrow>
              p \<in> {Str ''low'', Str ''medium''} \<and> c \<in> {Str ''account'', Str ''product''}) \<and>
           (u k_requires_human = Some (Bool True) \<longleftrightarrow>
              \<not> (p \<in> {Str ''low'', Str ''medium''} \<and> c \<in> {Str ''account'', Str ''product''})) \<and>
           (u k_response \<noteq> None \<longleftrightarrow>
              p \<in> {Str ''low'', Str ''medium''} \<and> c \<in> {Str ''account'', Str ''product''}) \<and>
           (\<forall>x. c = Str x \<and> u k_response \<noteq> None \<longrightarrow>
              u k_response = Some (Str (''Auto-resolved '' @ x @ '' issue from knowledge base'')))"
  using assms by (auto simp: check_knowledge_base_def fstr_def)

theorem check_knowledge_base_eligibility_witness:
  "[k_priority \<mapsto> Str ''medium'', k_category \<mapsto> Str ''product''] k_priority = Some (Str ''medium'')
   \<and> [k_priority \<mapsto> Str ''medium'', k_category \<mapsto> Str ''product''] k_category = Some (Str ''product'')
   \<and> (\<exists>u. check_knowledge_base \<lparr>now_stamp = ''20250101093000'', py_str = (\<lambda>v. [])\<rparr>
             [k_priority \<mapsto> Str ''medium'', k_category \<mapsto> Str ''product''] = Inr u
          \<and> u k_requires_human = Some (Bool False)
          \<and> u k_response = Some (Str ''Auto-resolved product issue from knowledge base''))"
  using check_knowledge_base_eligibility
          [of "[k_priority \<mapsto> Str ''medium'', k_category \<mapsto> Str ''product'']"
              "Str ''medium''" "Str ''product''"
              "\<lparr>now_stamp = ''20250101093000'', py_str = (\<lambda>v. [])\<rparr>"]
  by auto

section \<open>Properties of the executor\<close>


text \<open>The run function is one of the walks of the relational executor.\<close>

lemma deterministic_rel_of: "deterministic (rel_of W)"
  unfolding deterministic_def
proof (intro conjI allI impI)
  fix name f w state r1 r2
  assume "rnodes (rel_of W) name = Some f" and "f w state r1" and "f w state r2"
  then show "r1 = r2" by (auto simp: rel_of_def)
next
  fix name routingFn labelToNode and state :: "'b state" and r1 r2
  assume ed: "redges (rel_of W) name = Some (RConditional routingFn labelToNode)"
    and a: "routingFn state r1" and b: "routingFn state r2"
  from ed obtain ed0 where "edges W name = Some ed0"
    and r: "redge_of ed0 = RConditional routingFn labelToNode"
    by (auto simp: rel_of_def)
  from r obtain g where "routingFn = (\<lambda>state r. g state = r)"
    by (cases ed0) (auto simp: redge_of_def)
  with a b show "r1 = r2" by simp
qed

lemma resolveNext_resolves:
  "resolves (rel_of W) src state (resolveNext W src state)"
proof (cases "edges W src")
  case None
  then have "redges (rel_of W) src = None" by (simp add: rel_of_def)
  then have "resolves (rel_of W) src state (Inl (MissingEdge src))" by (rule resolves.no_edge)
  with None show ?thesis by (simp add: resolveNext_def)
next
  case (Some ed)
  show ?thesis
  proof (cases ed)
    case (Static tgt)
    with Some have "redges (rel_of W) src = Some (RStatic tgt)"
      by (simp add: rel_of_def redge_of_def)
    then have "resolves (rel_of W) src state (Inr (tgt, state))" by (rule resolves.static)
    with Some Static show ?thesis by (simp add: resolveNext_def)
  next
    case (Conditional routingFn labelToNode)
    with Some have ed: "redges (rel_of W) src
        = Some (RConditional (\<lambda>state r. routingFn state = r) labelToNode)"
      by (simp add: rel_of_def redge_of_def)
    show ?thesis
    proof (cases "routingFn state")
      case (Inl e)
      have "resolves (rel_of W) src state (Inl e)"
        by (rule resolves.routing_fails[where routingFn="\<lambda>state r. routingFn state = r", OF ed]) (simp add: Inl)
      with Some Conditional Inl show ?thesis by (simp add: resolveNext_def)
    next
      case (Inr p)
      obtain label state' where p: "p = (label, state')" by (cases p)
      show ?thesis
      proof (cases "labelToNode label")
        case None
        have "resolves (rel_of W) src state (Inl (UnmappedLabel label))"
          by (rule resolves.unmapped[where routingFn="\<lambda>state r. routingFn state = r" and state'=state', OF ed _ None]) (simp add: Inr p)
        with Some Conditional Inr p None show ?thesis by (simp add: resolveNext_def)
      next
        case (Some tgt)
        have "resolves (rel_of W) src state (Inr (tgt, state'))"
          by (rule resolves.mapped[where routingFn="\<lambda>state r. routingFn state = r" and state'=state', OF ed _ Some]) (simp add: Inr p)
        with \<open>edges W src = Some ed\<close> Conditional Inr p Some show ?thesis
          by (simp add: resolveNext_def)
      qed
    qed
  qed
qed

lemma run_walks:
  "run n W current w state = Some out \<Longrightarrow> walks (rel_of W) current w state out"
proof (induction n arbitrary: current w state out)
  case 0
  then show ?case by simp
next
  case (Suc n)
  show ?case
  proof (cases "current = END")
    case True
    with Suc.prems have "out = ([], Inr (w, state))" by simp
    with True show ?thesis by (simp add: walks.terminal)
  next
    case notend: False
    show ?thesis
    proof (cases "nodes W current")
      case None
      with notend Suc.prems have out: "out = ([], Inl (UnknownNode current))" by simp
      from None have "rnodes (rel_of W) current = None" by (simp add: rel_of_def)
      with notend show ?thesis unfolding out by (rule walks.unknown)
    next
      case (Some f)
      then have rn: "rnodes (rel_of W) current = Some (\<lambda>w state r. f w state = r)"
        by (simp add: rel_of_def)
      show ?thesis
      proof (cases "f w state")
        case (Inl e)
        with notend Some Suc.prems have out: "out = ([(current, state)], Inl e)" by simp
        show ?thesis unfolding out
          by (rule walks.node_fails[where f="\<lambda>w state r. f w state = r", OF notend rn]) (simp add: Inl)
      next
        case (Inr p)
        obtain w' update where p: "p = (w', update)" by (cases p)
        have fr: "(\<lambda>w state r. f w state = r) w state (Inr (w', update))"
          by (simp add: Inr p)
        have rs: "resolves (rel_of W) current (merge state update)
                    (resolveNext W current (merge state update))"
          by (rule resolveNext_resolves)
        show ?thesis
        proof (cases "resolveNext W current (merge state update)")
          case (Inl e)
          with notend Some Inr p Suc.prems have out: "out = ([(current, state)], Inl e)"
            by simp
          from rs Inl have "resolves (rel_of W) current (merge state update) (Inl e)" by simp
          then show ?thesis unfolding out
            by (rule walks.edge_fails[where f="\<lambda>w state r. f w state = r" and w'=w' and update=update, OF notend rn fr])
        next
          case res: (Inr q)
          obtain nxt state' where q: "q = (nxt, state')" by (cases q)
          from rs res q have rs': "resolves (rel_of W) current (merge state update)
                                     (Inr (nxt, state'))" by simp
          show ?thesis
          proof (cases "run n W nxt w' state'")
            case None
            with notend Some Inr p res q Suc.prems show ?thesis by simp
          next
            case some: (Some a)
            obtain trace r where a: "a = (trace, r)" by (cases a)
            from some a have "walks (rel_of W) nxt w' state' (trace, r)"
              by (simp add: Suc.IH)
            then have "walks (rel_of W) current w state ((current, state) # trace, r)"
              by (rule walks.step[where f="\<lambda>w state r. f w state = r" and w'=w' and update=update, OF notend rn fr rs'])
            moreover from some a notend Some Inr p res q Suc.prems
            have "out = ((current, state) # trace, r)" by simp
            ultimately show ?thesis by simp
          qed
        qed
      qed
    qed
  qed
qed

lemma det_route:
  "deterministic W \<Longrightarrow> redges W name = Some (RConditional routingFn labelToNode)
   \<Longrightarrow> routingFn state r1 \<Longrightarrow> routingFn state r2 \<Longrightarrow> r1 = r2"
  unfolding deterministic_def by blast

lemma resolves_functional:
  assumes det: "deterministic W"
    and r1: "resolves W src state r1" and r2: "resolves W src state r2"
  shows "r1 = r2"
proof (cases "redges W src")
  case None
  from r1 None have "r1 = Inl (MissingEdge src)" by (cases rule: resolves.cases) simp_all
  moreover from r2 None have "r2 = Inl (MissingEdge src)" by (cases rule: resolves.cases) simp_all
  ultimately show ?thesis by simp
next
  case (Some ed)
  show ?thesis
  proof (cases ed)
    case (RStatic tgt)
    from r1 Some RStatic have "r1 = Inr (tgt, state)" by (cases rule: resolves.cases) simp_all
    moreover from r2 Some RStatic have "r2 = Inr (tgt, state)"
      by (cases rule: resolves.cases) simp_all
    ultimately show ?thesis by simp
  next
    case (RConditional R m)
    have shape: "\<exists>q. R state q \<and>
        r = (case q of Inl e \<Rightarrow> Inl e
             | Inr (label, state') \<Rightarrow>
                 (case m label of None \<Rightarrow> Inl (UnmappedLabel label)
                  | Some tgt \<Rightarrow> Inr (tgt, state')))"
      if "resolves W src state r" for r
      using that
    proof (cases rule: resolves.cases)
      case no_edge
      with Some show ?thesis by simp
    next
      case (static tgt)
      with Some RConditional show ?thesis by simp
    next
      case (routing_fails routingFn labelToNode e)
      with Some RConditional have "R state (Inl e)" by simp
      with routing_fails show ?thesis by (intro exI[of _ "Inl e"]) simp
    next
      case (unmapped routingFn labelToNode label state')
      with Some RConditional have "R state (Inr (label, state'))" "m label = None" by simp_all
      with unmapped show ?thesis by (intro exI[of _ "Inr (label, state')"]) simp
    next
      case (mapped routingFn labelToNode label state' tgt)
      with Some RConditional have "R state (Inr (label, state'))" "m label = Some tgt"
        by simp_all
      with mapped show ?thesis by (intro exI[of _ "Inr (label, state')"]) simp
    qed
    from shape[OF r1] obtain q1 where q1: "R state q1"
      and e1: "r1 = (case q1 of Inl e \<Rightarrow> Inl e
             | Inr (label, state') \<Rightarrow>
                 (case m label of None \<Rightarrow> Inl (UnmappedLabel label)
                  | Some tgt \<Rightarrow> Inr (tgt, state')))" by blast
    from shape[OF r2] obtain q2 where q2: "R state q2"
      and e2: "r2 = (case q2 of Inl e \<Rightarrow> Inl e
             | Inr (label, state') \<Rightarrow>
                 (case m label of None \<Rightarrow> Inl (UnmappedLabel label)
                  | Some tgt \<Rightarrow> Inr (tgt, state')))" by blast
    have "q1 = q2"
      using det Some q1 q2 unfolding RConditional by (rule det_route)
    with e1 e2 show ?thesis by simp
  qed
qed

text \<open>
  C7: a run is deterministic when all node functions and all routing functions are: from
  the same node, world and state, any two walks of a workflow whose node and routing
  relations return at most one result end with the same outcome, that is with the same
  sequence of visited nodes (and entry states) and the same final state or error.
\<close>

theorem walks_functional:
  assumes det: "deterministic W"
    and w1: "walks W current w state out1" and w2: "walks W current w state out2"
  shows "out1 = out2"
  using w1 w2
proof (induction arbitrary: out2 rule: walks.induct)
  case (terminal w state)
  from terminal show ?case by (cases rule: walks.cases) simp_all
next
  case (unknown current w state)
  from unknown(3) unknown(1,2) show ?case by (cases rule: walks.cases) simp_all
next
  case (node_fails current f w state e)
  from node_fails(4) show ?case
  proof (cases rule: walks.cases)
    case (node_fails f' e')
    with \<open>rnodes W current = Some f\<close> \<open>f w state (Inl e)\<close> have "f w state (Inl e')" by simp
    with det \<open>rnodes W current = Some f\<close> \<open>f w state (Inl e)\<close> have "e = e'"
      unfolding deterministic_def by blast
    with node_fails show ?thesis by simp
  next
    case (edge_fails f' w' update e')
    with \<open>rnodes W current = Some f\<close> have "f w state (Inr (w', update))" by simp
    with det \<open>rnodes W current = Some f\<close> \<open>f w state (Inl e)\<close> have "Inl e = Inr (w', update)"
      unfolding deterministic_def by blast
    then show ?thesis by simp
  next
    case (step f' w' update nxt state' trace r)
    with \<open>rnodes W current = Some f\<close> have "f w state (Inr (w', update))" by simp
    with det \<open>rnodes W current = Some f\<close> \<open>f w state (Inl e)\<close> have "Inl e = Inr (w', update)"
      unfolding deterministic_def by blast
    then show ?thesis by simp
  qed (use node_fails in simp_all)
next
  case (edge_fails current f w state w' update e)
  from edge_fails(5) show ?case
  proof (cases rule: walks.cases)
    case (node_fails f' e')
    with \<open>rnodes W current = Some f\<close> have "f w state (Inl e')" by simp
    with det \<open>rnodes W current = Some f\<close> \<open>f w state (Inr (w', update))\<close>
    have "Inr (w', update) = Inl e'" unfolding deterministic_def by blast
    then show ?thesis by simp
  next
    case ef: (edge_fails f' w2 update2 e')
    with \<open>rnodes W current = Some f\<close> have "f w state (Inr (w2, update2))" by simp
    with det \<open>rnodes W current = Some f\<close> \<open>f w state (Inr (w', update))\<close>
    have "Inr (w', update) = Inr (w2, update2)" unfolding deterministic_def by blast
    with ef have "resolves W current (merge state update) (Inl e')" by simp
    with det \<open>resolves W current (merge state update) (Inl e)\<close> have "e = e'"
      by (auto dest: resolves_functional)
    with ef show ?thesis by simp
  next
    case st: (step f' w2 update2 nxt state' trace r)
    with \<open>rnodes W current = Some f\<close> have "f w state (Inr (w2, update2))" by simp
    with det \<open>rnodes W current = Some f\<close> \<open>f w state (Inr (w', update))\<close>
    have "Inr (w', update) = Inr (w2, update2)" unfolding deterministic_def by blast
    with st have "resolves W current (merge state update) (Inr (nxt, state'))" by simp
    with det \<open>resolves W current (merge state update) (Inl e)\<close> have "Inl e = Inr (nxt, state')"
      by (rule resolves_functional)
    then show ?thesis by simp
  qed (use edge_fails in simp_all)
next
  case (step current f w state w' update nxt state' trace r)
  from step.prems show ?case
  proof (cases rule: walks.cases)
    case (node_fails f' e')
    with \<open>rnodes W current = Some f\<close> have "f w state (Inl e')" by simp
    with det \<open>rnodes W current = Some f\<close> \<open>f w state (Inr (w', update))\<close>
    have "Inr (w', update) = Inl e'" unfolding deterministic_def by blast
    then show ?thesis by simp
  next
    case ef: (edge_fails f' w2 update2 e')
    with \<open>rnodes W current = Some f\<close> have "f w state (Inr (w2, update2))" by simp
    with det \<open>rnodes W current = Some f\<close> \<open>f w state (Inr (w', update))\<close>
    have "Inr (w', update) = Inr (w2, update2)" unfolding deterministic_def by blast
    with ef have "resolves W current (merge state update) (Inl e')" by simp
    with det \<open>resolves W current (merge state update) (Inr (nxt, state'))\<close>
    have "Inr (nxt, state') = Inl e'" by (rule resolves_functional)
    then show ?thesis by simp
  next
    case st: (step f' w2 update2 nxt2 state2 trace2 r2)
    with \<open>rnodes W current = Some f\<close> have "f w state (Inr (w2, update2))" by simp
    with det \<open>rnodes W current = Some f\<close> \<open>f w state (Inr (w', update))\<close>
    have eq1: "Inr (w', update) = Inr (w2, update2)" unfolding deterministic_def by blast
    with st have "resolves W current (merge state update) (Inr (nxt2, state2))" by simp
    with det \<open>resolves W current (merge state update) (Inr (nxt, state'))\<close>
    have eq2: "nxt = nxt2 \<and> state' = state2" by (auto dest: resolves_functional)
    from st eq1 eq2 have "walks W nxt w' state' (trace2, r2)" by simp
    then have "(trace, r) = (trace2, r2)" by (rule step.IH)
    with st show ?thesis by simp
  qed (use step in simp_all)
qed

section \<open>One step of the support-triage graph\<close>

lemma app_analyze_sentiment:
  "run (Suc n) app ''analyze_sentiment'' e s =
     (case analyze_sentiment s of
        Inl err \<Rightarrow> Some ([(''analyze_sentiment'', s)], Inl err)
      | Inr u \<Rightarrow> (case run n app ''categorize'' e (merge s u) of
                    None \<Rightarrow> None
                  | Some (trace, r) \<Rightarrow> Some ((''analyze_sentiment'', s) # trace, r)))"
  by (simp add: app_def resolveNext_def node_of_def END_def split: sum.splits)

lemma app_categorize:
  "run (Suc n) app ''categorize'' e s =
     (case categorize_issue s of
        Inl err \<Rightarrow> Some ([(''categorize'', s)], Inl err)
      | Inr u \<Rightarrow> (case run n app ''assign_priority'' e (merge s u) of
                    None \<Rightarrow> None
                  | Some (trace, r) \<Rightarrow> Some ((''categorize'', s) # trace, r)))"
  by (simp add: app_def resolveNext_def node_of_def END_def split: sum.splits)

lemma app_assign_priority:
  "run (Suc n) app ''assign_priority'' e s =
     (case assign_priority s of
        Inl err \<Rightarrow> Some ([(''assign_priority'', s)], Inl err)
      | Inr u \<Rightarrow> (case run n app ''check_kb'' e (merge s u) of
                    None \<Rightarrow> None
                  | Some (trace, r) \<Rightarrow> Some ((''assign_priority'', s) # trace, r)))"
  by (simp add: app_def resolveNext_def node_of_def END_def split: sum.splits)

lemma app_check_kb:
  "run (Suc n) app ''check_kb'' e s =
     (case check_knowledge_base e s of
        Inl err \<Rightarrow> Some ([(''check_kb'', s)], Inl err)
      | Inr u \<Rightarrow>
          (case should_auto_resolve (merge s u) of
             Inl err \<Rightarrow> Some ([(''check_kb'', s)], Inl err)
           | Inr (label, s') \<Rightarrow>
               (case [Str ''automated'' \<mapsto> ''automated'',
                      Str ''ai_response'' \<mapsto> ''ai_response'',
                      Str ''escalate'' \<mapsto> ''escalate''] label of
                  None \<Rightarrow> Some ([(''check_kb'', s)], Inl (UnmappedLabel label))
                | Some nxt \<Rightarrow>
                    (case run n app nxt e s' of
                       None \<Rightarrow> None
                     | Some (trace, r) \<Rightarrow> Some ((''check_kb'', s) # trace, r)))))"
  by (simp add: app_def resolveNext_def env_node_of_def END_def split: sum.splits option.splits)

lemma app_ai_response:
  "run (Suc n) app ''ai_response'' e s =
     (case generate_ai_response e s of
        Inl err \<Rightarrow> Some ([(''ai_response'', s)], Inl err)
      | Inr u \<Rightarrow>
          (case should_escalate (merge s u) of
             Inl err \<Rightarrow> Some ([(''ai_response'', s)], Inl err)
           | Inr (label, s') \<Rightarrow>
               (case [Str ''escalate'' \<mapsto> ''escalate'', Str ''end'' \<mapsto> END] label of
                  None \<Rightarrow> Some ([(''ai_response'', s)], Inl (UnmappedLabel label))
                | Some nxt \<Rightarrow>
                    (case run n app nxt e s' of
                       None \<Rightarrow> None
                     | Some (trace, r) \<Rightarrow> Some ((''ai_response'', s) # trace, r)))))"
  by (simp add: app_def resolveNext_def env_node_of_def END_def split: sum.splits option.splits)

lemma app_escalate:
  "run (Suc n) app ''escalate'' e s =
     (case escalate_to_human e s of
        Inl err \<Rightarrow> Some ([(''escalate'', s)], Inl err)
      | Inr u \<Rightarrow> (case run n app END e (merge s u) of
                    None \<Rightarrow> None
                  | Some (trace, r) \<Rightarrow> Some ((''escalate'', s) # trace, r)))"
  by (simp add: app_def resolveNext_def env_node_of_def END_def split: sum.splits)

lemma app_automated:
  "run (Suc n) app ''automated'' e s =
     (case send_automated_response e s of
        Inl err \<Rightarrow> Some ([(''automated'', s)], Inl err)
      | Inr u \<Rightarrow> (case run n app END e (merge s u) of
                    None \<Rightarrow> None
                  | Some (trace, r) \<Rightarrow> Some ((''automated'', s) # trace, r)))"
  by (simp add: app_def resolveNext_def env_node_of_def END_def split: sum.splits)

lemma run_END: "run (Suc n) W END w s = Some ([], Inr (w, s))"
  by simp

section \<open>The priority table and the routing after the knowledge-base check\<close>

text \<open>
  C2 (as amended): for every sentiment and category, \<open>assign_priority\<close> returns: urgent
  sentiment gives critical whatever the category; billing with negative gives critical;
  negative with a category other than billing gives high; account with neutral gives
  medium; account with positive, and product with neutral or positive, give low. Nothing
  is said of technical with neutral.
\<close>

theorem assign_priority_table:
  assumes "state k_sentiment = Some sentiment" and "state k_category = Some category"
  shows "\<exists>p. assign_priority state = Inr [k_priority \<mapsto> Str p] \<and>
           (sentiment = Str ''urgent'' \<longrightarrow> p = ''critical'') \<and>
           (category = Str ''billing'' \<and> sentiment = Str ''negative'' \<longrightarrow> p = ''critical'') \<and>
           (sentiment = Str ''negative'' \<and> category \<noteq> Str ''billing'' \<longrightarrow> p = ''high'') \<and>
           (category = Str ''account'' \<and> sentiment = Str ''neutral'' \<longrightarrow> p = ''medium'') \<and>
           (category = Str ''account'' \<and> sentiment = Str ''positive'' \<longrightarrow> p = ''low'') \<and>
           (category = Str ''product'' \<and> sentiment \<in> {Str ''neutral'', Str ''positive''}
              \<longrightarrow> p = ''low'')"
  using assms by (auto simp: assign_priority_def)

theorem assign_priority_table_witness:
  "[k_sentiment \<mapsto> Str ''neutral'', k_category \<mapsto> Str ''account''] k_sentiment = Some (Str ''neutral'')
   \<and> [k_sentiment \<mapsto> Str ''neutral'', k_category \<mapsto> Str ''account''] k_category = Some (Str ''account'')
   \<and> assign_priority [k_sentiment \<mapsto> Str ''neutral'', k_category \<mapsto> Str ''account'']
       = Inr [k_priority \<mapsto> Str ''medium'']"
  using assign_priority_table
          [of "[k_sentiment \<mapsto> Str ''neutral'', k_category \<mapsto> Str ''account'']"
              "Str ''neutral''" "Str ''account''"]
  by auto

text \<open>
  The table as the specification words it gives low for account with neutral; the third
  branch of the function returns medium there.
\<close>

theorem assign_priority_table_counterexample:
  "assign_priority [k_sentiment \<mapsto> Str ''neutral'', k_category \<mapsto> Str ''account'']
     = Inr [k_priority \<mapsto> Str ''medium'']
   \<and> Str ''medium'' \<noteq> Str ''low''"
  by (simp add: assign_priority_def)

text \<open>
  The third branch also tests for the technical category, but the second branch has
  already answered high for it: on technical with neutral the function returns high.
\<close>

lemma assign_priority_technical_neutral:
  "assign_priority [k_sentiment \<mapsto> Str ''neutral'', k_category \<mapsto> Str ''technical'']
     = Inr [k_priority \<mapsto> Str ''high'']"
  by (simp add: assign_priority_def)

lemma app_resolve_check_kb:
  "resolveNext app ''check_kb'' state =
     (case should_auto_resolve state of
        Inl err \<Rightarrow> Inl err
      | Inr (label, state') \<Rightarrow>
          (case [Str ''automated'' \<mapsto> ''automated'',
                 Str ''ai_response'' \<mapsto> ''ai_response'',
                 Str ''escalate'' \<mapsto> ''escalate''] label of
             None \<Rightarrow> Inl (UnmappedLabel label)
           | Some tgt \<Rightarrow> Inr (tgt, state')))"
  by (simp add: app_def resolveNext_def)

text \<open>
  C4: for every state that \<open>check_knowledge_base\<close> has just updated, the edge out of
  \<open>check_kb\<close> leads to \<open>escalate\<close> exactly when \<open>requires_human\<close> is true and the
  priority is critical or high, to \<open>automated\<close> exactly when \<open>requires_human\<close> is
  false, and to \<open>ai_response\<close> in the remaining case; the state is passed on unchanged.
\<close>

theorem should_auto_resolve_routing:
  assumes "check_knowledge_base e state0 = Inr update" and "state = merge state0 update"
  shows "\<exists>tgt. resolveNext app ''check_kb'' state = Inr (tgt, state) \<and>
           (tgt = ''escalate'' \<longleftrightarrow>
              state k_requires_human = Some (Bool True)
              \<and> state k_priority \<in> {Some (Str ''critical''), Some (Str ''high'')}) \<and>
           (tgt = ''automated'' \<longleftrightarrow> state k_requires_human = Some (Bool False)) \<and>
           (tgt = ''ai_response'' \<longleftrightarrow>
              state k_requires_human = Some (Bool True)
              \<and> state k_priority \<notin> {Some (Str ''critical''), Some (Str ''high'')})"
  using assms
  by (auto simp: app_resolve_check_kb should_auto_resolve_def check_knowledge_base_def
        get_or_none_def merge_def Let_def split: option.splits if_splits)

theorem should_auto_resolve_routing_witness:
  "check_knowledge_base sample_env [k_category \<mapsto> Str ''billing'', k_priority \<mapsto> Str ''critical'']
     = Inr [k_requires_human \<mapsto> Bool True]
   \<and> resolveNext app ''check_kb''
        (merge [k_category \<mapsto> Str ''billing'', k_priority \<mapsto> Str ''critical'']
               [k_requires_human \<mapsto> Bool True])
      = Inr (''escalate'',
             merge [k_category \<mapsto> Str ''billing'', k_priority \<mapsto> Str ''critical'']
                   [k_requires_human \<mapsto> Bool True])"
proof -
  have h: "check_knowledge_base sample_env
             [k_category \<mapsto> Str ''billing'', k_priority \<mapsto> Str ''critical'']
           = Inr [k_requires_human \<mapsto> Bool True]"
    by (simp add: check_knowledge_base_def)
  from should_auto_resolve_routing[OF h refl] h show ?thesis
    by (auto simp: merge_def)
qed

section \<open>The two end-to-end scenarios\<close>

lemma lower_urgent_message:
  "lower ''URGENT: Cannot access my account, need help immediately!''
     = ''urgent: cannot access my account, need help immediately!''"
  by (simp add: lower_def lower_char_def char_of_eq_iff)

lemma lower_password_message:
  "lower ''How do I reset my password?'' = ''how do i reset my password?''"
  by (simp add: lower_def lower_char_def char_of_eq_iff)

lemma entry_app: "entry app = ''analyze_sentiment''"
  by (simp add: app_def)

lemma six_plus: "6 + n = Suc (Suc (Suc (Suc (Suc (Suc n)))))"
  by simp

lemmas app_steps = app_analyze_sentiment app_categorize app_assign_priority app_check_kb
  app_ai_response app_escalate app_automated run_END

lemma test_case_1_run:
  "\<exists>trace final.
     invoke (6 + n) app e test_case_1 = Some (trace, Inr (e, final))
     \<and> map fst trace = [''analyze_sentiment'', ''categorize'', ''assign_priority'', ''check_kb'', ''escalate'']
     \<and> final k_sentiment = Some (Str ''urgent'')
     \<and> final k_category = Some (Str ''account'')
     \<and> final k_priority = Some (Str ''critical'')
     \<and> final k_requires_human = Some (Bool True)
     \<and> final k_escalate = Some (Bool True)
     \<and> final k_ticket_id = Some (Str (''TKT-'' @ now_stamp e))
     \<and> final k_response = Some (Str (''Escalated to human agent - Ticket: '' @ ''TKT-'' @ now_stamp e))"
  unfolding six_plus
  by (simp add: invoke_def entry_app app_steps analyze_sentiment_def categorize_issue_def
      assign_priority_def check_knowledge_base_def escalate_to_human_def should_auto_resolve_def
      get_or_none_def merge_def lower_urgent_message Let_def test_case_1_def del: run.simps)

lemma test_case_2_run:
  "\<exists>trace final.
     invoke (6 + n) app e test_case_2 = Some (trace, Inr (e, final))
     \<and> map fst trace = [''analyze_sentiment'', ''categorize'', ''assign_priority'', ''check_kb'', ''automated'']
     \<and> final k_user_id = Some (Str ''U456'')
     \<and> final k_message = Some (Str ''How do I reset my password?'')
     \<and> final k_sentiment = Some (Str ''neutral'')
     \<and> final k_category = Some (Str ''account'')
     \<and> final k_priority = Some (Str ''medium'')
     \<and> final k_requires_human = Some (Bool False)
     \<and> final k_escalate = Some (Bool False)
     \<and> final k_response = Some (Str ''Automated response for account query'')"
  unfolding six_plus
  by (simp add: invoke_def entry_app app_steps analyze_sentiment_def categorize_issue_def
      assign_priority_def check_knowledge_base_def send_automated_response_def should_auto_resolve_def
      get_or_none_def merge_def lower_password_message Let_def fstr_def test_case_2_def del: run.simps)

text \<open>
  C5: for the message "URGENT: Cannot access my account, need help immediately!" the
  workflow, given fuel for its six steps, returns a final state with sentiment urgent,
  category account, priority critical and \<open>requires_human\<close> true, after visiting
  \<open>escalate\<close> as its last node; the response ends with the generated ticket
  identifier, which is also stored under \<open>ticket_id\<close>.
\<close>

theorem urgent_scenario:
  "\<exists>trace final.
     invoke (6 + n) app e test_case_1 = Some (trace, Inr (e, final))
     \<and> map fst trace = [''analyze_sentiment'', ''categorize'', ''assign_priority'',
                        ''check_kb'', ''escalate'']
     \<and> final k_sentiment = Some (Str ''urgent'')
     \<and> final k_category = Some (Str ''account'')
     \<and> final k_priority = Some (Str ''critical'')
     \<and> final k_requires_human = Some (Bool True)
     \<and> final k_ticket_id = Some (Str (''TKT-'' @ now_stamp e))
     \<and> final k_response
         = Some (Str (''Escalated to human agent - Ticket: '' @ ''TKT-'' @ now_stamp e))"
  using test_case_1_run[of n e] by (elim exE conjE, intro exI conjI) assumption+

text \<open>
  C6 (as amended): for the message "How do I reset my password?" the workflow, given fuel
  for its six steps, returns a final state with sentiment neutral, category account,
  priority medium and \<open>requires_human\<close> false, after visiting \<open>automated\<close> as its
  last node.
\<close>

theorem password_scenario:
  "\<exists>trace final.
     invoke (6 + n) app e test_case_2 = Some (trace, Inr (e, final))
     \<and> map fst trace = [''analyze_sentiment'', ''categorize'', ''assign_priority'',
                        ''check_kb'', ''automated'']
     \<and> final k_sentiment = Some (Str ''neutral'')
     \<and> final k_category = Some (Str ''account'')
     \<and> final k_priority = Some (Str ''medium'')
     \<and> final k_requires_human = Some (Bool False)
     \<and> final k_response = Some (Str ''Automated response for account query'')"
  using test_case_2_run[of n e] by (elim exE conjE, intro exI conjI) assumption+

text \<open>The priority the workflow assigns to that message is medium, not low.\<close>

theorem password_scenario_counterexample:
  "final_state (invoke 6 app sample_env test_case_2) k_priority = Some (Str ''medium'')
   \<and> Str ''medium'' \<noteq> Str ''low''"
proof -
  from test_case_2_run[of 0 sample_env] obtain trace final where
    "invoke 6 app sample_env test_case_2 = Some (trace, Inr (sample_env, final))"
    and "final k_priority = Some (Str ''medium'')" by auto
  then show ?thesis by (simp add: final_state_def)
qed

section \<open>Fields that no node writes\<close>

text \<open>
  A field that no node function puts in its update and no routing function changes has,
  after a finished walk, the value it started with.
\<close>

lemma run_preserves:
  assumes nodes_ok: "\<And>name f w s w' u. nodes W name = Some f \<Longrightarrow> f w s = Inr (w', u) \<Longrightarrow> u k = None"
    and routes_ok: "\<And>name routingFn labelToNode s label s'.
        edges W name = Some (Conditional routingFn labelToNode)
        \<Longrightarrow> routingFn s = Inr (label, s') \<Longrightarrow> s' k = s k"
  shows "run n W current w state = Some (trace, Inr (w', state')) \<Longrightarrow> state' k = state k"
proof (induction n arbitrary: current w state trace)
  case 0
  then show ?case by simp
next
  case (Suc n)
  show ?case
  proof (cases "current = END")
    case True
    with Suc.prems show ?thesis by simp
  next
    case notend: False
    show ?thesis
    proof (cases "nodes W current")
      case None
      with notend Suc.prems show ?thesis by simp
    next
      case (Some f)
      show ?thesis
      proof (cases "f w state")
        case (Inl e)
        with notend Some Suc.prems show ?thesis by simp
      next
        case (Inr p)
        obtain w1 update where p: "p = (w1, update)" by (cases p)
        from nodes_ok[OF Some] Inr p have upd: "update k = None" by simp
        show ?thesis
        proof (cases "resolveNext W current (merge state update)")
          case (Inl e)
          with notend Some Inr p Suc.prems show ?thesis by simp
        next
          case res: (Inr q)
          obtain nxt state1 where q: "q = (nxt, state1)" by (cases q)
          have s1: "state1 k = state k"
          proof (cases "edges W current")
            case None
            with res show ?thesis by (simp add: resolveNext_def)
          next
            case edge: (Some ed)
            show ?thesis
            proof (cases ed)
              case (Static tgt)
              with edge res q have "state1 = merge state update"
                by (simp add: resolveNext_def)
              with upd show ?thesis
                by (simp add: merge_def map_add_def)
            next
              case (Conditional routingFn labelToNode)
              with edge res q obtain label where
                "routingFn (merge state update) = Inr (label, state1)"
                by (auto simp: resolveNext_def split: sum.splits option.splits)
              from routes_ok[OF edge[unfolded Conditional] this] upd show ?thesis
                by (simp add: merge_def map_add_def)
            qed
          qed
          show ?thesis
          proof (cases "run n W nxt w1 state1")
            case None
            with notend Some Inr p res q Suc.prems show ?thesis by simp
          next
            case some: (Some a)
            obtain trace1 r where a: "a = (trace1, r)" by (cases a)
            from some a notend Some Inr p res q Suc.prems
            have "r = Inr (w', state')" by simp
            with some a have "run n W nxt w1 state1 = Some (trace1, Inr (w', state'))" by simp
            then have "state' k = state1 k" by (rule Suc.IH)
            with s1 show ?thesis by simp
          qed
        qed
      qed
    qed
  qed
qed

lemma app_node_frame:
  assumes "nodes app name = Some f" and "f e state = Inr (e', update)"
  shows "update k_user_id = None \<and> update k_message = None \<and> update k_context = None"
proof -
  from assms(1) have "f \<in> {node_of analyze_sentiment, node_of categorize_issue,
      node_of assign_priority, env_node_of check_knowledge_base,
      env_node_of generate_ai_response, env_node_of escalate_to_human,
      env_node_of send_automated_response}"
    by (auto simp: app_def split: if_splits)
  with assms(2) show ?thesis
    by (auto simp: node_of_def env_node_of_def analyze_sentiment_def categorize_issue_def
        assign_priority_def check_knowledge_base_def generate_ai_response_def
        escalate_to_human_def send_automated_response_def Let_def
        split: option.splits val.splits sum.splits if_splits)
qed

lemma app_route_frame:
  assumes "edges app name = Some (Conditional routingFn labelToNode)"
    and "routingFn state = Inr (label, state')"
  shows "state' = state"
proof -
  from assms(1) have "routingFn = should_auto_resolve \<or> routingFn = should_escalate"
    by (auto simp: app_def split: if_splits)
  with assms(2) show ?thesis
    by (auto simp: should_auto_resolve_def should_escalate_def split: if_splits option.splits)
qed

text \<open>
  C9: merging a node's update into the state leaves every field the update does not name
  as it was; no node of the support-triage graph names \<open>user_id\<close> or \<open>message\<close> in the
  update it returns; so a finished run returns both with the values of the initial state.
\<close>

theorem merge_frame:
  "(\<forall>k. update k = None \<longrightarrow> merge state update k = state k) \<and>
   (\<forall>name f e' u. nodes app name = Some f \<longrightarrow> f e state = Inr (e', u)
        \<longrightarrow> u k_user_id = None \<and> u k_message = None) \<and>
   (\<forall>fuel trace e' final.
        invoke fuel app e state = Some (trace, Inr (e', final))
        \<longrightarrow> final k_user_id = state k_user_id \<and> final k_message = state k_message)"
proof (intro conjI allI impI)
  fix k assume "update k = None"
  then show "merge state update k = state k" by (simp add: merge_def map_add_def)
next
  fix name f e' u
  assume a: "nodes app name = Some f" and b: "f e state = Inr (e', u)"
  from app_node_frame[OF a b] show "u k_user_id = None" and "u k_message = None"
    by simp_all
next
  fix fuel trace e' final
  assume r: "invoke fuel app e state = Some (trace, Inr (e', final))"
  have "final k = state k" if "k = k_user_id \<or> k = k_message" for k
  proof (rule run_preserves[where W = app and k = k])
    fix name f w s w' u
    assume a: "nodes app name = Some f" and b: "f w s = Inr (w', u)"
    from app_node_frame[OF a b] that show "u k = None" by auto
  next
    fix name routingFn labelToNode s label s'
    assume a: "edges app name = Some (Conditional routingFn labelToNode)"
      and b: "routingFn s = Inr (label, s')"
    from app_route_frame[OF a b] show "s' k = s k" by simp
  next
    from r show "run fuel app (entry app) e state = Some (trace, Inr (e', final))"
      by (simp add: invoke_def)
  qed
  then show "final k_user_id = state k_user_id" and "final k_message = state k_message"
    by simp_all
qed

theorem merge_frame_witness:
  "merge test_case_2 [k_sentiment \<mapsto> Str ''neutral''] k_message = test_case_2 k_message
   \<and> final_state (invoke 6 app sample_env test_case_2) k_user_id = Some (Str ''U456'')
   \<and> final_state (invoke 6 app sample_env test_case_2) k_message
       = Some (Str ''How do I reset my password?'')"
proof -
  from test_case_2_run[of 0 sample_env] obtain trace final where
    r: "invoke 6 app sample_env test_case_2 = Some (trace, Inr (sample_env, final))" by auto
  note mf = merge_frame[of "[k_sentiment \<mapsto> Str ''neutral'']" test_case_2 sample_env]
  from mf have "merge test_case_2 [k_sentiment \<mapsto> Str ''neutral''] k_message
      = test_case_2 k_message" by simp
  moreover from mf r have "final k_user_id = test_case_2 k_user_id"
    and "final k_message = test_case_2 k_message" by blast+
  ultimately show ?thesis using r by (simp add: final_state_def test_case_2_def)
qed

section \<open>The edge from ai\_response to escalate\<close>

lemma from_escalate:
  assumes "run n app ''escalate'' e s = Some out"
  shows "fst out = [(''escalate'', s)]"
proof (cases n)
  case 0
  with assms show ?thesis by simp
next
  case (Suc m)
  show ?thesis
  proof (cases m)
    case 0
    with Suc assms show ?thesis
      by (simp add: app_escalate escalate_to_human_def Let_def del: run.simps(2))
  next
    case (Suc m')
    with \<open>n = Suc m\<close> assms show ?thesis
      by (auto simp add: app_escalate escalate_to_human_def Let_def run_END simp del: run.simps)
  qed
qed

lemma from_automated:
  assumes "run n app ''automated'' e s = Some out"
  shows "fst out = [(''automated'', s)]"
proof (cases n)
  case 0
  with assms show ?thesis by simp
next
  case (Suc m)
  show ?thesis
  proof (cases m)
    case 0
    with Suc assms show ?thesis
      by (auto simp add: app_automated simp del: run.simps(2) split: sum.splits)
  next
    case (Suc m')
    with \<open>n = Suc m\<close> assms show ?thesis
      by (auto simp add: app_automated run_END simp del: run.simps split: sum.splits)
  qed
qed

lemma from_ai_response:
  assumes "run n app ''ai_response'' e s = Some out"
    and "s k_priority \<noteq> Some (Str ''critical'')"
  shows "fst out = [(''ai_response'', s)]"
proof (cases n)
  case 0
  with assms show ?thesis by simp
next
  case (Suc m)
  show ?thesis
  proof (cases "generate_ai_response e s")
    case (Inl err)
    with Suc assms show ?thesis by (auto simp add: app_ai_response simp del: run.simps)
  next
    case (Inr u)
    with assms(2) have esc: "u k_escalate = Some (Bool False)"
      by (auto simp: generate_ai_response_def split: option.splits)
    then have "should_escalate (merge s u) = Inr (Str ''end'', merge s u)"
      by (simp add: should_escalate_def get_or_none_def merge_def)
    with Suc Inr assms(1) show ?thesis
      by (cases m) (auto simp add: app_ai_response run_END simp del: run.simps(2))
  qed
qed

lemma dead_edge_single: "name \<noteq> ''ai_response'' \<Longrightarrow> dead_edge e [(name, s)]"
  by (simp add: dead_edge_def)

lemma dead_edge_cons:
  "name \<noteq> ''ai_response'' \<Longrightarrow> dead_edge e trace \<Longrightarrow> dead_edge e ((name, s) # trace)"
  by (cases trace) (auto simp: dead_edge_def)

lemma from_check_kb:
  assumes run: "run n app ''check_kb'' e s = Some out"
    and prio: "s k_priority = Some (Str pv)"
    and pv: "pv \<in> {''critical'', ''high'', ''medium'', ''low''}"
  shows "dead_edge e (fst out)"
proof (cases n)
  case 0
  with run show ?thesis by simp
next
  case (Suc m)
  show ?thesis
  proof (cases "s k_category")
    case None
    with Suc run have "fst out = [(''check_kb'', s)]"
      by (auto simp add: app_check_kb check_knowledge_base_def simp del: run.simps)
    then show ?thesis by (simp add: dead_edge_single)
  next
    case (Some c)
    define elig where "elig \<longleftrightarrow> Str pv \<in> set [Str ''low'', Str ''medium'']
        \<and> c \<in> set [Str ''account'', Str ''product'']"
    define u where "u = (if elig
        then [k_response \<mapsto> Str (''Auto-resolved '' @ fstr (py_str e) c @ '' issue from knowledge base''),
              k_requires_human \<mapsto> Bool False]
        else [k_requires_human \<mapsto> Bool True])"
    have kb: "check_knowledge_base e s = Inr u"
      using Some prio by (simp add: check_knowledge_base_def u_def elig_def)
    define s4 where "s4 = merge s u"
    have s4p: "s4 k_priority = Some (Str pv)" and s4c: "s4 k_category = Some c"
      and s4h: "s4 k_requires_human = Some (Bool (\<not> elig))"
      using prio Some by (auto simp: s4_def u_def merge_def)
    show ?thesis
    proof (cases "elig")
      case True
      with s4h have "should_auto_resolve s4 = Inr (Str ''automated'', s4)"
        by (simp add: should_auto_resolve_def get_or_none_def)
      with Suc run kb obtain out' where o: "run m app ''automated'' e s4 = Some out'"
        and out: "fst out = (''check_kb'', s) # fst out'"
        by (auto simp add: app_check_kb s4_def simp del: run.simps split: option.splits)
      from from_automated[OF o] out show ?thesis
        by (simp add: dead_edge_def)
    next
      case False
      show ?thesis
      proof (cases "pv \<in> {''critical'', ''high''}")
        case True
        with False s4h s4p have "should_auto_resolve s4 = Inr (Str ''escalate'', s4)"
          by (auto simp add: should_auto_resolve_def get_or_none_def)
        with Suc run kb obtain out' where o: "run m app ''escalate'' e s4 = Some out'"
          and out: "fst out = (''check_kb'', s) # fst out'"
          by (auto simp add: app_check_kb s4_def simp del: run.simps split: option.splits)
        from from_escalate[OF o] out show ?thesis
          by (simp add: dead_edge_def)
      next
        case notcrit: False
        with False s4h s4p have "should_auto_resolve s4 = Inr (Str ''ai_response'', s4)"
          by (auto simp add: should_auto_resolve_def get_or_none_def)
        with Suc run kb obtain out' where o: "run m app ''ai_response'' e s4 = Some out'"
          and out: "fst out = (''check_kb'', s) # fst out'"
          by (auto simp add: app_check_kb s4_def simp del: run.simps split: option.splits)
        from notcrit s4p have nc: "s4 k_priority \<noteq> Some (Str ''critical'')" by auto
        from from_ai_response[OF o nc] have tr: "fst out' = [(''ai_response'', s4)]" .
        from notcrit pv have lm: "pv = ''medium'' \<or> pv = ''low''" by auto
        have "enters_ai_response e s4"
          unfolding enters_ai_response_def
          using lm s4p s4c s4h False
          by (auto simp: generate_ai_response_def should_escalate_def get_or_none_def merge_def)
        with out tr show ?thesis
          by (simp add: dead_edge_def)
      qed
    qed
  qed
qed

lemma from_assign_priority:
  assumes run: "run n app ''assign_priority'' e s = Some out"
  shows "dead_edge e (fst out)"
proof (cases n)
  case 0
  with run show ?thesis by simp
next
  case (Suc m)
  show ?thesis
  proof (cases "assign_priority s")
    case (Inl err)
    with Suc run have "fst out = [(''assign_priority'', s)]"
      by (auto simp add: app_assign_priority simp del: run.simps)
    then show ?thesis by (simp add: dead_edge_single)
  next
    case (Inr u)
    then obtain pv where u: "u = [k_priority \<mapsto> Str pv]"
      and pv: "pv \<in> {''critical'', ''high'', ''medium'', ''low''}"
      by (auto simp: assign_priority_def Let_def split: option.splits if_splits)
    from u have p: "merge s u k_priority = Some (Str pv)" by (simp add: merge_def)
    from Suc run Inr obtain out' where o: "run m app ''check_kb'' e (merge s u) = Some out'"
      and out: "fst out = (''assign_priority'', s) # fst out'"
      by (auto simp add: app_assign_priority simp del: run.simps split: option.splits)
    from from_check_kb[OF o p pv] out show ?thesis
      by (simp add: dead_edge_cons)
  qed
qed

lemma from_categorize:
  assumes run: "run n app ''categorize'' e s = Some out"
  shows "dead_edge e (fst out)"
proof (cases n)
  case 0
  with run show ?thesis by simp
next
  case (Suc m)
  show ?thesis
  proof (cases "categorize_issue s")
    case (Inl err)
    with Suc run have "fst out = [(''categorize'', s)]"
      by (auto simp add: app_categorize simp del: run.simps)
    then show ?thesis by (simp add: dead_edge_single)
  next
    case (Inr u)
    with Suc run obtain out' where o: "run m app ''assign_priority'' e (merge s u) = Some out'"
      and out: "fst out = (''categorize'', s) # fst out'"
      by (auto simp add: app_categorize simp del: run.simps split: option.splits)
    from from_assign_priority[OF o] out show ?thesis
      by (simp add: dead_edge_cons)
  qed
qed

lemma from_analyze_sentiment:
  assumes run: "run n app ''analyze_sentiment'' e s = Some out"
  shows "dead_edge e (fst out)"
proof (cases n)
  case 0
  with run show ?thesis by simp
next
  case (Suc m)
  show ?thesis
  proof (cases "analyze_sentiment s")
    case (Inl err)
    with Suc run have "fst out = [(''analyze_sentiment'', s)]"
      by (auto simp add: app_analyze_sentiment simp del: run.simps)
    then show ?thesis by (simp add: dead_edge_single)
  next
    case (Inr u)
    with Suc run obtain out' where o: "run m app ''categorize'' e (merge s u) = Some out'"
      and out: "fst out = (''analyze_sentiment'', s) # fst out'"
      by (auto simp add: app_analyze_sentiment simp del: run.simps split: option.splits)
    from from_categorize[OF o] out show ?thesis
      by (simp add: dead_edge_cons)
  qed
qed

lemma lower_billing_question:
  "lower ''Where can I find my invoice?'' = ''where can i find my invoice?''"
  by (simp add: lower_def lower_char_def char_of_eq_iff)

lemma billing_question_run:
  "\<exists>trace final.
     invoke (6 + n) app e billing_question = Some (trace, Inr (e, final))
     \<and> map fst trace = [''analyze_sentiment'', ''categorize'', ''assign_priority'', ''check_kb'', ''ai_response'']
     \<and> final k_sentiment = Some (Str ''neutral'')
     \<and> final k_category = Some (Str ''billing'')
     \<and> final k_priority = Some (Str ''low'')
     \<and> final k_requires_human = Some (Bool True)
     \<and> final k_escalate = Some (Bool False)"
  unfolding six_plus
  by (simp add: invoke_def entry_app app_steps analyze_sentiment_def categorize_issue_def
      assign_priority_def check_knowledge_base_def generate_ai_response_def
      should_auto_resolve_def should_escalate_def
      get_or_none_def merge_def lower_billing_question Let_def fstr_def billing_question_def
      del: run.simps)

text \<open>
  C10: the edge from \<open>ai_response\<close> to \<open>escalate\<close> is dead. In every finished run, from
  any initial state, each state with which \<open>ai_response\<close> is entered has
  \<open>requires_human\<close> true and priority low or medium, \<open>generate_ai_response\<close> sets
  \<open>escalate\<close> to false on it and \<open>should_escalate\<close> then answers "end"; and in the
  sequence of visited nodes \<open>escalate\<close> never comes directly after \<open>ai_response\<close>.
\<close>

theorem ai_response_never_escalates:
  assumes "invoke fuel app e state = Some out"
  shows "(\<forall>(name, s) \<in> set (fst out). name = ''ai_response'' \<longrightarrow>
            s k_requires_human = Some (Bool True) \<and>
            s k_priority \<in> {Some (Str ''low''), Some (Str ''medium'')} \<and>
            (\<exists>update. generate_ai_response e s = Inr update \<and>
                      update k_escalate = Some (Bool False) \<and>
                      should_escalate (merge s update) = Inr (Str ''end'', merge s update)))
         \<and> \<not> adjacent ''ai_response'' ''escalate'' (visits out)"
proof -
  from assms have "run fuel app ''analyze_sentiment'' e state = Some out"
    by (simp add: invoke_def entry_app)
  then have "dead_edge e (fst out)" by (rule from_analyze_sentiment)
  then show ?thesis
    unfolding dead_edge_def enters_ai_response_def visits_def by simp
qed

theorem ai_response_never_escalates_witness:
  "invoke 6 app sample_env billing_question \<noteq> None
   \<and> last (visits (the (invoke 6 app sample_env billing_question))) = ''ai_response''
   \<and> \<not> adjacent ''ai_response'' ''escalate''
          (visits (the (invoke 6 app sample_env billing_question)))"
proof -
  from billing_question_run[of 0 sample_env] obtain trace final where
    r: "invoke 6 app sample_env billing_question = Some (trace, Inr (sample_env, final))"
    and v: "map fst trace = [''analyze_sentiment'', ''categorize'', ''assign_priority'',
                            ''check_kb'', ''ai_response'']" by auto
  from ai_response_never_escalates[OF r]
  have "\<not> adjacent ''ai_response'' ''escalate'' (visits (trace, Inr (sample_env, final)))"
    by simp
  with r v show ?thesis by (simp add: visits_def)
qed

section \<open>A deterministic workflow\<close>

theorem walks_functional_witness:
  "invoke 6 app sample_env test_case_2 = invoke 9 app sample_env test_case_2"
proof -
  from test_case_2_run[of 0 sample_env] obtain out1 where
    r1: "run 6 app ''analyze_sentiment'' sample_env test_case_2 = Some out1"
    by (auto simp: invoke_def entry_app)
  from test_case_2_run[of 3 sample_env] obtain out2 where
    r2: "run 9 app ''analyze_sentiment'' sample_env test_case_2 = Some out2"
    by (auto simp: invoke_def entry_app)
  have "out1 = out2"
    by (rule walks_functional[OF deterministic_rel_of run_walks[OF r1] run_walks[OF r2]])
  with r1 r2 show ?thesis by (simp add: invoke_def entry_app)
qed

section \<open>One step of the retrieval graph\<close>












section \<open>A label with no successor\<close>






section \<open>The bound on relevance checks\<close>
























end
